theory Spec2Isabelle
  imports Main "HOL-Library.AList" "HOL-Library.Char_ord" "HOL-Library.List_Lexorder"
begin

section \<open>The shared state store\<close>

text \<open>
  The gateway reaches Redis through the StateManager of the ACIP core: \<open>get\<close> resolves to
  the stored value or to nothing, \<open>set\<close> stores a value, and both reject when the store
  cannot be reached.  A store is modelled by its entries, a flag telling whether calls
  reach it, and two counters of the calls made (they exist only in the model and record
  that a \<open>get\<close> or a \<open>set\<close> was issued).
\<close>

datatype StoreError = StoreUnavailable

record 'v StateManager =
  entries :: "string \<Rightarrow> 'v option"
  reachable :: bool
  reads :: nat
  writes :: nat

definition sm_get :: "string \<Rightarrow> 'v StateManager \<Rightarrow> (StoreError + 'v option) \<times> 'v StateManager" where
  "sm_get key st =
     (if reachable st then (Inr (entries st key), st\<lparr>reads := Suc (reads st)\<rparr>)
      else (Inl StoreUnavailable, st\<lparr>reads := Suc (reads st)\<rparr>))"

definition sm_set :: "string \<Rightarrow> 'v \<Rightarrow> 'v StateManager \<Rightarrow> (StoreError + unit) \<times> 'v StateManager" where
  "sm_set key v st =
     (if reachable st
      then (Inr (), st\<lparr>entries := (entries st)(key \<mapsto> v), writes := Suc (writes st)\<rparr>)
      else (Inl StoreUnavailable, st\<lparr>writes := Suc (writes st)\<rparr>))"

section \<open>Rate limiter (plugins/rate-limit-plugin.ts)\<close>

record RateLimitPluginConfig =
  enabled :: bool
  windowMs :: int
  maxRequests :: int

text \<open>
  A JavaScript number as the limiter produces it: the instants are integral milliseconds,
  and \<open>timestamps[0] + windowMs\<close> on an empty array is \<open>undefined + number\<close>, that is NaN.
\<close>

datatype jsnum = Num int | NaN

record RateLimitResult =
  allowed :: bool
  remaining :: int
  resetAt :: jsnum

type_synonym RateStore = "int list StateManager"

text \<open>
  \<open>checkRateLimit\<close> suspends at \<open>await stateManager.get\<close> and resumes with the value
  read.  \<open>PendingCheck\<close> is what the suspended call holds: \<open>now\<close>, \<open>windowStart\<close>, the key
  and, once resumed, \<open>currentData\<close>.
\<close>

record PendingCheck =
  p_now :: int
  p_windowStart :: int
  p_key :: string
  p_currentData :: "int list option"

text \<open>Lines 127-133: read the clock, compute the window start, read the key.\<close>

definition beginCheck ::
  "RateLimitPluginConfig \<Rightarrow> int \<Rightarrow> string \<Rightarrow> RateStore \<Rightarrow> (StoreError + PendingCheck) \<times> RateStore" where
  "beginCheck cfg now key st =
     (let windowStart = now - windowMs cfg in
      case sm_get key st of
        (Inl e, st') \<Rightarrow> (Inl e, st')
      | (Inr currentData, st') \<Rightarrow>
          (Inr \<lparr>p_now = now, p_windowStart = windowStart, p_key = key,
                p_currentData = currentData\<rparr>, st'))"

text \<open>Lines 134-157: drop the expired instants, decide, and write back on admission.\<close>

definition finishCheck ::
  "RateLimitPluginConfig \<Rightarrow> PendingCheck \<Rightarrow> RateStore \<Rightarrow> (StoreError + RateLimitResult) \<times> RateStore" where
  "finishCheck cfg p st =
     (let timestamps = (case p_currentData p of None \<Rightarrow> [] | Some l \<Rightarrow> l);
          timestamps = filter (\<lambda>ts. ts > p_windowStart p) timestamps;
          currentCount = int (length timestamps)
      in if currentCount \<ge> maxRequests cfg
         then (Inr \<lparr>allowed = False, remaining = 0,
                     resetAt = (case timestamps of [] \<Rightarrow> NaN | t0 # _ \<Rightarrow> Num (t0 + windowMs cfg))\<rparr>, st)
         else (let timestamps = timestamps @ [p_now p] in
               case sm_set (p_key p) timestamps st of
                 (Inl e, st') \<Rightarrow> (Inl e, st')
               | (Inr _, st') \<Rightarrow>
                   (Inr \<lparr>allowed = True,
                         remaining = maxRequests cfg - int (length timestamps),
                         resetAt = Num (p_now p + windowMs cfg)\<rparr>, st')))"

text \<open>One admission check that runs without another check in between.\<close>

definition checkRateLimit ::
  "RateLimitPluginConfig \<Rightarrow> int \<Rightarrow> string \<Rightarrow> RateStore \<Rightarrow> (StoreError + RateLimitResult) \<times> RateStore" where
  "checkRateLimit cfg now key st =
     (case beginCheck cfg now key st of
        (Inl e, st') \<Rightarrow> (Inl e, st')
      | (Inr p, st') \<Rightarrow> finishCheck cfg p st')"

text \<open>The list stored under a key (\<open>currentData ?? []\<close>) and its part inside the window.\<close>

definition stored :: "RateStore \<Rightarrow> string \<Rightarrow> int list" where
  "stored st key = (case entries st key of None \<Rightarrow> [] | Some l \<Rightarrow> l)"

definition inWindow :: "RateLimitPluginConfig \<Rightarrow> int \<Rightarrow> int list \<Rightarrow> int list" where
  "inWindow cfg now l = filter (\<lambda>ts. ts > now - windowMs cfg) l"

definition admitted :: "(StoreError + RateLimitResult) \<Rightarrow> bool" where
  "admitted r = (case r of Inl _ \<Rightarrow> False | Inr res \<Rightarrow> allowed res)"

text \<open>
  A sequence of admission checks, one after the other, each given by its key and the
  clock reading of the call.  \<open>admittedAt cfg k calls st\<close> lists the instants of the
  admitted checks for key \<open>k\<close>.
\<close>

fun admittedAt :: "RateLimitPluginConfig \<Rightarrow> string \<Rightarrow> (string \<times> int) list \<Rightarrow> RateStore \<Rightarrow> int list" where
  "admittedAt cfg k [] st = []"
| "admittedAt cfg k ((key, now) # calls) st =
     (case checkRateLimit cfg now key st of
        (r, st') \<Rightarrow> (if key = k \<and> admitted r then [now] else []) @ admittedAt cfg k calls st')"

text \<open>
  \<open>covers w m H L\<close>: every window that reaches back no further than \<open>m - w\<close> sees at
  least as many instants in the stored list \<open>L\<close> as in the list \<open>H\<close> of admitted ones.
\<close>

definition covers :: "int \<Rightarrow> int \<Rightarrow> int list \<Rightarrow> int list \<Rightarrow> bool" where
  "covers w m H L =
     (\<forall>x. m - w \<le> x \<longrightarrow> length (filter (\<lambda>a. x < a) H) \<le> length (filter (\<lambda>a. x < a) L))"

definition withinWindow :: "int \<Rightarrow> int \<Rightarrow> int \<Rightarrow> bool" where
  "withinWindow w t a = (t - w < a \<and> a \<le> t)"

text \<open>
  Two checks of one key whose waits overlap: JavaScript runs one task at a time, but a
  second check can start while the first one waits for its \<open>get\<close>.  In this schedule
  both checks read before either of them writes.
\<close>

definition racingChecks ::
  "RateLimitPluginConfig \<Rightarrow> int \<Rightarrow> int \<Rightarrow> string \<Rightarrow> RateStore \<Rightarrow>
   (StoreError + RateLimitResult) \<times> (StoreError + RateLimitResult) \<times> RateStore" where
  "racingChecks cfg nowA nowB key st =
     (let (pA, st1) = beginCheck cfg nowA key st;
          (pB, st2) = beginCheck cfg nowB key st1;
          (rA, st3) = (case pA of Inl e \<Rightarrow> (Inl e, st2) | Inr p \<Rightarrow> finishCheck cfg p st2);
          (rB, st4) = (case pB of Inl e \<Rightarrow> (Inl e, st3) | Inr p \<Rightarrow> finishCheck cfg p st3)
      in (rA, rB, st4))"

definition emptyRateStore :: RateStore where
  "emptyRateStore = \<lparr>entries = (\<lambda>_. None), reachable = True, reads = 0, writes = 0\<rparr>"

text \<open>The scenario of the specification: two requests per minute for one client.\<close>

definition exampleLimit :: RateLimitPluginConfig where
  "exampleLimit = \<lparr>enabled = True, windowMs = 60000, maxRequests = 2\<rparr>"

definition twoAdmitted :: RateStore where
  "twoAdmitted = emptyRateStore\<lparr>entries := (\<lambda>_. None)(''gateway:ratelimit:ip:1.2.3.4'' \<mapsto> [0, 100])\<rparr>"

section \<open>Worker registry (services/worker-registry.ts)\<close>

datatype WorkerState = Online | Offline | Busy | Idle

fun workerStateName :: "WorkerState \<Rightarrow> string" where
  "workerStateName Online = ''online''"
| "workerStateName Offline = ''offline''"
| "workerStateName Busy = ''busy''"
| "workerStateName Idle = ''idle''"

record WorkerGPUInfo =
  gpu_name :: string
  memory_total_mb :: int
  memory_used_mb :: int
  utilization_percent :: int

text \<open>The registry reads \<open>gpu?.name\<close>, so a record may come without its GPU part.\<close>

record WorkerStatus =
  worker_id :: string
  region :: string
  status :: WorkerState
  gpu :: "WorkerGPUInfo option"
  last_heartbeat :: string
  uptime_seconds :: int
  jobs_completed :: int
  current_job :: "string option"
  capabilities :: "string list option"

record WorkerEventPayload =
  ev_workerId :: string
  ev_region :: string
  ev_gpu :: string
  ev_status :: WorkerState
  ev_lastHeartbeat :: int

text \<open>A published event: its name and its payload.\<close>

type_synonym WorkerEvent = "string \<times> WorkerEventPayload"

text \<open>
  The keys the registry reads: \<open>worker:index\<close> holds the list of worker ids, and
  \<open>worker:<id>:status\<close> the record of one worker.  \<open>unreadable\<close> tells for which keys
  \<open>get\<close> rejects.
\<close>

record WorkerStore =
  workerIndex :: "string list option"
  workerStatus :: "string \<Rightarrow> WorkerStatus option"
  unreadable :: "string \<Rightarrow> bool"

definition readIndex :: "WorkerStore \<Rightarrow> StoreError + string list option" where
  "readIndex ws =
     (if unreadable ws ''worker:index'' then Inl StoreUnavailable else Inr (workerIndex ws))"

definition readStatus :: "WorkerStore \<Rightarrow> string \<Rightarrow> StoreError + WorkerStatus option" where
  "readStatus ws workerId =
     (if unreadable ws (''worker:'' @ workerId @ '':status'') then Inl StoreUnavailable
      else Inr (workerStatus ws workerId))"

text \<open>
  The in-memory snapshot is a JavaScript Map: \<open>set\<close> overwrites in place or appends,
  \<open>delete\<close> removes, and iteration follows insertion order.
\<close>

type_synonym Snapshot = "(string \<times> WorkerStatus) list"

definition gpuName :: "WorkerStatus option \<Rightarrow> string" where
  "gpuName w = (case w of None \<Rightarrow> ''unknown''
                | Some d \<Rightarrow> (case gpu d of None \<Rightarrow> ''unknown'' | Some g \<Rightarrow> gpu_name g))"

definition discoverWorkerIds :: "WorkerStore \<Rightarrow> StoreError + string list" where
  "discoverWorkerIds ws =
     (case readIndex ws of
        Inl e \<Rightarrow> Inl e
      | Inr index \<Rightarrow> Inr (case index of None \<Rightarrow> [] | Some ids \<Rightarrow> ids))"

text \<open>
  The first loop of \<open>refreshWorkers\<close> (lines 66-100).  A rejected status read leaves the
  loop with what has been done so far; the first component tells whether that happened.
\<close>

fun fetchWorkers ::
  "int \<Rightarrow> WorkerStore \<Rightarrow> string list \<Rightarrow> Snapshot \<Rightarrow> string list \<Rightarrow> WorkerEvent list \<Rightarrow>
   StoreError option \<times> Snapshot \<times> string list \<times> WorkerEvent list" where
  "fetchWorkers now ws [] workers currentIds evs = (None, workers, currentIds, evs)"
| "fetchWorkers now ws (workerId # rest) workers currentIds evs =
     (let currentIds = List.insert workerId currentIds in
      case readStatus ws workerId of
        Inl e \<Rightarrow> (Some e, workers, currentIds, evs)
      | Inr None \<Rightarrow> fetchWorkers now ws rest workers currentIds evs
      | Inr (Some statusData) \<Rightarrow>
          (let previousStatus = map_of workers workerId;
               workers = AList.update workerId statusData workers;
               payload = \<lparr>ev_workerId = workerId, ev_region = region statusData,
                          ev_gpu = gpuName (Some statusData), ev_status = status statusData,
                          ev_lastHeartbeat = now\<rparr>;
               evs = (case previousStatus of
                        None \<Rightarrow> evs @ [(''gateway:worker:online'', payload)]
                      | Some prev \<Rightarrow>
                          if status prev \<noteq> status statusData
                          then evs @ [(''gateway:worker:updated'', payload)] else evs)
           in fetchWorkers now ws rest workers currentIds evs))"

text \<open>The second loop (lines 103-118): previously known ids that the index did not list.\<close>

fun removeOffline ::
  "int \<Rightarrow> string list \<Rightarrow> string list \<Rightarrow> Snapshot \<Rightarrow> WorkerEvent list \<Rightarrow> Snapshot \<times> WorkerEvent list" where
  "removeOffline now [] currentIds workers evs = (workers, evs)"
| "removeOffline now (oldId # rest) currentIds workers evs =
     (if oldId \<notin> set currentIds
      then (let worker = map_of workers oldId;
                workers = AList.delete oldId workers;
                payload = \<lparr>ev_workerId = oldId,
                           ev_region = (case worker of None \<Rightarrow> ''unknown'' | Some w \<Rightarrow> region w),
                           ev_gpu = gpuName worker, ev_status = Offline, ev_lastHeartbeat = now\<rparr>
            in removeOffline now rest currentIds workers (evs @ [(''gateway:worker:offline'', payload)]))
      else removeOffline now rest currentIds workers evs)"

text \<open>
  One reconciliation tick: the snapshot after it and the events it published.  The
  \<open>catch\<close> of \<open>refreshWorkers\<close> swallows a rejected read and keeps what the tick had
  done until then.
\<close>

definition refreshWorkers :: "int \<Rightarrow> WorkerStore \<Rightarrow> Snapshot \<Rightarrow> Snapshot \<times> WorkerEvent list" where
  "refreshWorkers now ws workers =
     (case discoverWorkerIds ws of
        Inl e \<Rightarrow> (workers, [])
      | Inr knownWorkerIds \<Rightarrow>
          (let previousIds = map fst workers in
           case fetchWorkers now ws knownWorkerIds workers [] [] of
             (Some e, workers1, currentIds, evs) \<Rightarrow> (workers1, evs)
           | (None, workers1, currentIds, evs) \<Rightarrow>
               removeOffline now previousIds currentIds workers1 evs))"

text \<open>
  Whether every read of a tick succeeds (the index and the status of each listed id), and
  the ids its index lists.
\<close>

definition tickCompletes :: "WorkerStore \<Rightarrow> bool" where
  "tickCompletes ws =
     (case discoverWorkerIds ws of
        Inl e \<Rightarrow> False
      | Inr ids \<Rightarrow> list_all (\<lambda>i. \<not> unreadable ws (''worker:'' @ i @ '':status'')) ids)"

definition listedIds :: "WorkerStore \<Rightarrow> string list" where
  "listedIds ws = (case discoverWorkerIds ws of Inl e \<Rightarrow> [] | Inr ids \<Rightarrow> ids)"

definition offlineIds :: "WorkerEvent list \<Rightarrow> string list" where
  "offlineIds evs = map (\<lambda>e. ev_workerId (snd e)) (filter (\<lambda>e. fst e = ''gateway:worker:offline'') evs)"

record WorkerFilters =
  f_region :: "string option"
  f_status :: "string option"

record WorkerListResponse =
  r_workers :: "WorkerStatus list"
  total :: nat
  online :: nat
  busy :: nat
  idle :: nat

text \<open>\<open>filters?.region\<close> in a condition: present and not the empty string.\<close>

definition truthy :: "string option \<Rightarrow> bool" where
  "truthy v = (case v of None \<Rightarrow> False | Some s \<Rightarrow> s \<noteq> [])"

definition optField :: "WorkerFilters option \<Rightarrow> (WorkerFilters \<Rightarrow> string option) \<Rightarrow> string option" where
  "optField filters field = (case filters of None \<Rightarrow> None | Some f \<Rightarrow> field f)"

definition getWorkerList :: "WorkerFilters option \<Rightarrow> Snapshot \<Rightarrow> WorkerListResponse" where
  "getWorkerList filters snapshot =
     (let workers = map snd snapshot;
          workers = (if truthy (optField filters f_region)
                     then filter (\<lambda>w. Some (region w) = optField filters f_region) workers
                     else workers);
          workers = (if truthy (optField filters f_status)
                     then filter (\<lambda>w. Some (workerStateName (status w)) = optField filters f_status) workers
                     else workers);
          online = length (filter (\<lambda>w. status w \<noteq> Offline) workers);
          busy = length (filter (\<lambda>w. status w = Busy) workers);
          idle = length (filter (\<lambda>w. status w = Idle) workers)
      in \<lparr>r_workers = workers, total = length workers, online = online, busy = busy, idle = idle\<rparr>)"

text \<open>Whether a worker passes the filters given to \<open>getWorkerList\<close>.\<close>

definition passesFilters :: "WorkerFilters option \<Rightarrow> WorkerStatus \<Rightarrow> bool" where
  "passesFilters filters w =
     ((truthy (optField filters f_region) \<longrightarrow> Some (region w) = optField filters f_region) \<and>
      (truthy (optField filters f_status) \<longrightarrow>
         Some (workerStateName (status w)) = optField filters f_status))"

text \<open>Two workers, and stores that list both, one, or none of them.\<close>

definition workerA :: WorkerStatus where
  "workerA = \<lparr>worker_id = ''A'', region = ''us-east'', status = Idle,
     gpu = Some \<lparr>gpu_name = ''A100'', memory_total_mb = 81920, memory_used_mb = 0,
                 utilization_percent = 0\<rparr>,
     last_heartbeat = ''2026-01-01T00:00:00Z'', uptime_seconds = 60, jobs_completed = 0,
     current_job = None, capabilities = None\<rparr>"

definition workerB :: WorkerStatus where
  "workerB = \<lparr>worker_id = ''B'', region = ''eu-west'', status = Busy,
     gpu = None,
     last_heartbeat = ''2026-01-01T00:00:00Z'', uptime_seconds = 30, jobs_completed = 7,
     current_job = Some ''job-1'', capabilities = None\<rparr>"

definition statusAB :: "string \<Rightarrow> WorkerStatus option" where
  "statusAB i = (if i = ''A'' then Some workerA else if i = ''B'' then Some workerB else None)"

definition neverUnreadable :: "string \<Rightarrow> bool" where
  "neverUnreadable key = False"

definition indexUnreadable :: "string \<Rightarrow> bool" where
  "indexUnreadable key = (key = ''worker:index'')"

definition indexAB :: WorkerStore where
  "indexAB = \<lparr>workerIndex = Some [''A'', ''B''], workerStatus = statusAB, unreadable = neverUnreadable\<rparr>"

definition indexOnlyA :: WorkerStore where
  "indexOnlyA = \<lparr>workerIndex = Some [''A''], workerStatus = statusAB, unreadable = neverUnreadable\<rparr>"

definition indexAbsent :: WorkerStore where
  "indexAbsent = \<lparr>workerIndex = None, workerStatus = statusAB, unreadable = neverUnreadable\<rparr>"

definition indexDown :: WorkerStore where
  "indexDown = \<lparr>workerIndex = Some [''A'', ''B''], workerStatus = statusAB, unreadable = indexUnreadable\<rparr>"

definition snapshotAB :: Snapshot where
  "snapshotAB = [(''A'', workerA), (''B'', workerB)]"

definition busyOnly :: "WorkerFilters option" where
  "busyOnly = Some \<lparr>f_region = None, f_status = Some ''busy''\<rparr>"

section \<open>Job tracker (services/job-tracker.ts)\<close>

datatype JobState = Queued | Processing | Completed | Failed | Cancelled

text \<open>
  A job record as stored under \<open>queue:job:<id>\<close>.  The two dates are kept as the
  instants their strings denote (\<open>new Date(s).getTime()\<close>); \<open>None\<close> is an absent or empty
  string.
\<close>

record JobStatus =
  job_id :: string
  jstatus :: JobState
  model_name :: string
  jworker_id :: "string option"
  created_at :: "int option"
  completed_at :: "int option"
  job_error :: "string option"

record JobEventPayload =
  je_jobId :: string
  je_status :: JobState
  je_workerId :: "string option"
  je_modelName :: string
  je_duration :: "int option"

type_synonym JobEvent = "string \<times> JobEventPayload"

text \<open>The tracker: its in-memory cache, the shared store and the events published so far.\<close>

record JobTracker =
  jobs :: "string \<Rightarrow> JobStatus option"
  jobStore :: "JobStatus StateManager"
  jobEvents :: "JobEvent list"

definition publishStatusChange :: "JobStatus \<Rightarrow> JobTracker \<Rightarrow> JobTracker" where
  "publishStatusChange job t =
     (let eventType = (case jstatus job of
                         Completed \<Rightarrow> ''gateway:job:completed''
                       | Failed \<Rightarrow> ''gateway:job:failed''
                       | _ \<Rightarrow> ''gateway:job:submitted'');
          duration = (case (completed_at job, created_at job) of
                        (Some c, Some s) \<Rightarrow> Some (c - s)
                      | _ \<Rightarrow> None)
      in t\<lparr>jobEvents := jobEvents t @
            [(eventType, \<lparr>je_jobId = job_id job, je_status = jstatus job,
                          je_workerId = jworker_id job, je_modelName = model_name job,
                          je_duration = duration\<rparr>)]\<rparr>)"

definition trackJob :: "string \<Rightarrow> JobTracker \<Rightarrow> JobTracker" where
  "trackJob jobId t =
     (case sm_get (''queue:job:'' @ jobId) (jobStore t) of
        (Inl e, st') \<Rightarrow> t\<lparr>jobStore := st'\<rparr>
      | (Inr None, st') \<Rightarrow> t\<lparr>jobStore := st'\<rparr>
      | (Inr (Some fetched), st') \<Rightarrow>
          t\<lparr>jobStore := st', jobs := (jobs t)(jobId \<mapsto> fetched),
            jobEvents := jobEvents t @
              [(''gateway:job:submitted'',
                \<lparr>je_jobId = jobId, je_status = jstatus fetched, je_workerId = jworker_id fetched,
                 je_modelName = model_name fetched, je_duration = None\<rparr>)]\<rparr>)"

definition getJobStatus :: "string \<Rightarrow> JobTracker \<Rightarrow> JobStatus option \<times> JobTracker" where
  "getJobStatus jobId t =
     (let cached = jobs t jobId in
      if (case cached of None \<Rightarrow> False
          | Some c \<Rightarrow> jstatus c = Completed \<or> jstatus c = Failed)
      then (cached, t)
      else (case sm_get (''queue:job:'' @ jobId) (jobStore t) of
              (Inl e, st') \<Rightarrow> (cached, t\<lparr>jobStore := st'\<rparr>)
            | (Inr None, st') \<Rightarrow> (cached, t\<lparr>jobStore := st'\<rparr>)
            | (Inr (Some fetched), st') \<Rightarrow>
                (let previousStatus = map_option jstatus (jobs t jobId);
                     t1 = t\<lparr>jobStore := st', jobs := (jobs t)(jobId \<mapsto> fetched)\<rparr>;
                     t2 = (case previousStatus of
                             None \<Rightarrow> t1
                           | Some prev \<Rightarrow>
                               if prev \<noteq> jstatus fetched then publishStatusChange fetched t1 else t1)
                 in (Some fetched, t2))))"

text \<open>The glossary's terminal states, and the ones \<open>getJobStatus\<close> answers from its cache.\<close>

definition terminal :: "JobState \<Rightarrow> bool" where
  "terminal s = (s = Completed \<or> s = Failed \<or> s = Cancelled)"

text \<open>A tracker that holds a cancelled and a completed job.\<close>

definition jobCancelled :: JobStatus where
  "jobCancelled = \<lparr>job_id = ''job-1'', jstatus = Cancelled, model_name = ''llama-3'',
     jworker_id = None, created_at = Some 1000, completed_at = None, job_error = None\<rparr>"

definition jobCompleted :: JobStatus where
  "jobCompleted = \<lparr>job_id = ''job-2'', jstatus = Completed, model_name = ''llama-3'',
     jworker_id = Some ''A'', created_at = Some 1000, completed_at = Some 4000, job_error = None\<rparr>"

definition jobsInStore :: "string \<Rightarrow> JobStatus option" where
  "jobsInStore key = (if key = ''queue:job:job-1'' then Some jobCancelled
                      else if key = ''queue:job:job-2'' then Some jobCompleted else None)"

definition jobsCached :: "string \<Rightarrow> JobStatus option" where
  "jobsCached jobId = (if jobId = ''job-1'' then Some jobCancelled
                       else if jobId = ''job-2'' then Some jobCompleted else None)"

definition exampleTracker :: JobTracker where
  "exampleTracker =
     \<lparr>jobs = jobsCached,
      jobStore = \<lparr>entries = jobsInStore, reachable = True, reads = 0, writes = 0\<rparr>,
      jobEvents = []\<rparr>"

section \<open>Response cache (plugins/cache-plugin.ts)\<close>

record CachePluginConfig =
  cache_enabled :: bool
  ttlSeconds :: int
  maxSize :: int

record CachedResponse =
  statusCode :: int
  headers :: "(string \<times> string) list"
  body :: string
  cachedAt :: int

text \<open>
  The plugin: the shared store and the keys of the \<open>gateway:cache:stored\<close> events
  published so far.
\<close>

record CachePlugin =
  cacheStore :: "CachedResponse StateManager"
  storedEvents :: "string list"

fun join_strings :: "string \<Rightarrow> string list \<Rightarrow> string" where
  "join_strings sep [] = []"
| "join_strings sep [x] = x"
| "join_strings sep (x # y # ys) = x @ sep @ join_strings sep (y # ys)"

text \<open>
  A query object is a list of its properties, in the order they were added, with no key
  twice.  \<open>Object.keys(query).sort()\<close> orders the keys as strings; \<open>query[k]\<close> reads a
  property.
\<close>

type_synonym Query = "(string \<times> string) list"

definition sortedQuery :: "Query \<Rightarrow> string" where
  "sortedQuery query =
     join_strings ''&''
       (map (\<lambda>k. k @ ''='' @ (case map_of query k of None \<Rightarrow> ''undefined'' | Some v \<Rightarrow> v))
            (sort (map fst query)))"

text \<open>The string \<open>raw\<close> of \<open>computeCacheKey\<close>, which is handed to the digest.\<close>

definition cacheKeyRaw :: "string \<Rightarrow> string \<Rightarrow> Query \<Rightarrow> string" where
  "cacheKeyRaw method path query = method @ '':'' @ path @ ''?'' @ sortedQuery query"


text \<open>
  \<open>createHash('md5').update(raw).digest('hex')\<close> belongs to the Node runtime; the digest is
  the parameter \<open>md5hex\<close>.
\<close>

definition computeCacheKey :: "(string \<Rightarrow> string) \<Rightarrow> string \<Rightarrow> string \<Rightarrow> Query \<Rightarrow> string" where
  "computeCacheKey md5hex method path query =
     (let raw = cacheKeyRaw method path query;
          hash = md5hex raw
      in ''gateway:cache:'' @ hash)"

definition storeResponse ::
  "(string \<Rightarrow> string) \<Rightarrow> CachePluginConfig \<Rightarrow> int \<Rightarrow> string \<Rightarrow> string \<Rightarrow> Query \<Rightarrow>
   CachedResponse \<Rightarrow> CachePlugin \<Rightarrow> CachePlugin" where
  "storeResponse md5hex cfg now method path query response pl =
     (if \<not> cache_enabled cfg \<or> method \<noteq> ''GET'' then pl
      else (let cacheKey = computeCacheKey md5hex method path query in
            case sm_set cacheKey (response\<lparr>cachedAt := now\<rparr>) (cacheStore pl) of
              (Inl e, st') \<Rightarrow> pl\<lparr>cacheStore := st'\<rparr>
            | (Inr _, st') \<Rightarrow> pl\<lparr>cacheStore := st', storedEvents := storedEvents pl @ [cacheKey]\<rparr>))"

record RequestCompletedPayload =
  rc_id :: string
  rc_method :: string
  rc_path :: string
  rc_statusCode :: int
  rc_cached :: bool

text \<open>
  The subscriber of \<open>gateway:request:completed\<close> (lines 93-105): it returns early for
  what is not a fresh GET answered with 200, and has nothing after that test.
\<close>

definition completedSubscriber :: "RequestCompletedPayload \<Rightarrow> CachePlugin \<Rightarrow> CachePlugin" where
  "completedSubscriber p pl =
     (if rc_method p \<noteq> ''GET'' \<or> rc_statusCode p \<noteq> 200 \<or> rc_cached p then pl else pl)"

definition emptyCache :: CachePlugin where
  "emptyCache =
     \<lparr>cacheStore = \<lparr>entries = (\<lambda>_. None), reachable = True, reads = 0, writes = 0\<rparr>,
      storedEvents = []\<rparr>"

text \<open>A response of the backend that reports a failure.\<close>

definition cachingOn :: CachePluginConfig where
  "cachingOn = \<lparr>cache_enabled = True, ttlSeconds = 60, maxSize = 1000\<rparr>"

definition serverError :: CachedResponse where
  "serverError = \<lparr>statusCode = 500, headers = [], body = ''Internal Server Error'', cachedAt = 0\<rparr>"

section \<open>Request pipeline (\<open>createServer\<close>, the \<open>/api/v1\<close> middleware)\<close>

datatype HeaderValue = Text string | Number jsnum

record Response =
  res_headers :: "(string \<times> HeaderValue) list"
  res_status :: "int option"
  res_sent :: "string option"

definition setHeader :: "string \<Rightarrow> HeaderValue \<Rightarrow> Response \<Rightarrow> Response" where
  "setHeader name v res = res\<lparr>res_headers := AList.update name v (res_headers res)\<rparr>"

record RateLimitInfo =
  rl_remaining :: int
  rl_limit :: int
  rl_resetAt :: jsnum

record RequestContext =
  auth :: "(string \<times> string) option"
  targetUrl :: "string option"
  cached :: "bool option"
  cachedResponse :: "CachedResponse option"
  rateLimitInfo :: "RateLimitInfo option"

record GatewayRequest =
  requestId :: string
  startTime :: int
  req_method :: string
  originalUrl :: string
  req_headers :: "(string \<times> string) list"
  req_query :: Query
  req_body :: string
  req_ip :: "string option"
  remoteAddress :: "string option"

record RequestEventPayload =
  pl_id :: string
  pl_method :: string
  pl_path :: string
  pl_headers :: "(string \<times> string) list"
  pl_query :: Query
  pl_body :: string
  pl_ip :: string
  pl_timestamp :: int
  pl_context :: RequestContext

record RequestEvent =
  ev_name :: string
  ev_payload :: RequestEventPayload
  isCancelled :: bool

definition createEvent :: "string \<Rightarrow> RequestEventPayload \<Rightarrow> RequestEvent" where
  "createEvent name p = \<lparr>ev_name = name, ev_payload = p, isCancelled = False\<rparr>"

definition emptyContext :: RequestContext where
  "emptyContext = \<lparr>auth = None, targetUrl = None, cached = None, cachedResponse = None,
                    rateLimitInfo = None\<rparr>"

text \<open>\<open>a || b\<close> on strings: \<open>a\<close> unless it is absent or empty.\<close>

definition orElse :: "string option \<Rightarrow> string \<Rightarrow> string" where
  "orElse a b = (case a of None \<Rightarrow> b | Some s \<Rightarrow> if s = [] then b else s)"

text \<open>The event the middleware builds for a request (lines 117-129).\<close>

definition incomingEvent :: "GatewayRequest \<Rightarrow> RequestEvent" where
  "incomingEvent gwReq =
     createEvent ''gateway:request:incoming''
       \<lparr>pl_id = requestId gwReq, pl_method = req_method gwReq, pl_path = originalUrl gwReq,
        pl_headers = req_headers gwReq, pl_query = req_query gwReq, pl_body = req_body gwReq,
        pl_ip = orElse (req_ip gwReq) (orElse (remoteAddress gwReq) ''unknown''),
        pl_timestamp = startTime gwReq, pl_context = emptyContext\<rparr>"





record PipelineOutcome =
  out_response :: Response
  forwarded :: bool

text \<open>
  The middleware (lines 113-151).  \<open>publish\<close> is the event manager with the handlers
  subscribed to it: it returns the event and the response as the handlers left them.
  \<open>forwarded\<close> tells whether \<open>next()\<close> was called, which hands the request to the proxy.
\<close>

definition apiPipeline ::
  "(RequestEvent \<Rightarrow> Response \<Rightarrow> RequestEvent \<times> Response) \<Rightarrow> GatewayRequest \<Rightarrow> Response \<Rightarrow>
   PipelineOutcome" where
  "apiPipeline publish gwReq res =
     (case publish (incomingEvent gwReq) res of
        (requestEvent, res) \<Rightarrow>
          if isCancelled requestEvent then \<lparr>out_response = res, forwarded = False\<rparr>
          else (let res = setHeader ''X-Request-ID'' (Text (requestId gwReq)) res;
                    res = setHeader ''X-Gateway-Version'' (Text ''0.1.0'') res;
                    res = (case rateLimitInfo (pl_context (ev_payload requestEvent)) of
                             None \<Rightarrow> res
                           | Some rlInfo \<Rightarrow>
                               setHeader ''X-RateLimit-Reset'' (Number (rl_resetAt rlInfo))
                                 (setHeader ''X-RateLimit-Remaining'' (Number (Num (rl_remaining rlInfo)))
                                   (setHeader ''X-RateLimit-Limit'' (Number (Num (rl_limit rlInfo))) res)))
                in \<lparr>out_response = res, forwarded = True\<rparr>))"

definition exampleRequest :: GatewayRequest where
  "exampleRequest = \<lparr>requestId = ''req-1'', startTime = 1000, req_method = ''GET'',
     originalUrl = ''/api/v1/models'', req_headers = [], req_query = [], req_body = [],
     req_ip = Some ''1.2.3.4'', remoteAddress = None\<rparr>"

definition freshResponse :: Response where
  "freshResponse = \<lparr>res_headers = [], res_status = None, res_sent = None\<rparr>"

text \<open>A publish run in which the rate limiter answers 429 and cancels the event.\<close>

definition rejectingPublish :: "RequestEvent \<Rightarrow> Response \<Rightarrow> RequestEvent \<times> Response" where
  "rejectingPublish ev res =
     (ev\<lparr>isCancelled := True\<rparr>, res\<lparr>res_status := Some 429, res_sent := Some ''RATE_LIMIT_EXCEEDED''\<rparr>)"

section \<open>Properties of the rate limiter\<close>

subsection \<open>Single checks\<close>

lemma checkRateLimit_unreachable:
  "\<not> reachable st \<Longrightarrow>
   checkRateLimit cfg now key st = (Inl StoreUnavailable, st\<lparr>reads := Suc (reads st)\<rparr>)"
  by (simp add: checkRateLimit_def beginCheck_def sm_get_def)

lemma checkRateLimit_reject:
  assumes "reachable st" and "maxRequests cfg \<le> int (length (inWindow cfg now (stored st key)))"
  shows "checkRateLimit cfg now key st =
     (Inr \<lparr>allowed = False, remaining = 0,
           resetAt = (case inWindow cfg now (stored st key) of [] \<Rightarrow> NaN
                      | t0 # _ \<Rightarrow> Num (t0 + windowMs cfg))\<rparr>,
      st\<lparr>reads := Suc (reads st)\<rparr>)"
  using assms
  by (simp add: checkRateLimit_def beginCheck_def finishCheck_def sm_get_def
      inWindow_def stored_def Let_def)

lemma checkRateLimit_admit:
  assumes "reachable st" and "int (length (inWindow cfg now (stored st key))) < maxRequests cfg"
  shows "checkRateLimit cfg now key st =
     (Inr \<lparr>allowed = True,
           remaining = maxRequests cfg - (int (length (inWindow cfg now (stored st key))) + 1),
           resetAt = Num (now + windowMs cfg)\<rparr>,
      st\<lparr>reads := Suc (reads st),
         entries := (entries st)(key \<mapsto> inWindow cfg now (stored st key) @ [now]),
         writes := Suc (writes st)\<rparr>)"
  using assms
  by (simp add: checkRateLimit_def beginCheck_def finishCheck_def sm_get_def sm_set_def
      inWindow_def stored_def Let_def)

lemma checkRateLimit_other_key:
  assumes "key \<noteq> k"
  shows "stored (snd (checkRateLimit cfg now key st)) k = stored st k"
  by (simp add: checkRateLimit_def beginCheck_def finishCheck_def sm_get_def sm_set_def
      stored_def Let_def assms[symmetric])

lemma checkRateLimit_same_key:
  "(\<not> admitted (fst (checkRateLimit cfg now k st)) \<and>
      stored (snd (checkRateLimit cfg now k st)) k = stored st k) \<or>
   (admitted (fst (checkRateLimit cfg now k st)) \<and>
      int (length (inWindow cfg now (stored st k))) < maxRequests cfg \<and>
      stored (snd (checkRateLimit cfg now k st)) k = inWindow cfg now (stored st k) @ [now])"
proof (cases "reachable st")
  case False
  then show ?thesis
    by (simp add: checkRateLimit_unreachable admitted_def stored_def)
next
  case True
  show ?thesis
  proof (cases "maxRequests cfg \<le> int (length (inWindow cfg now (stored st k)))")
    case True
    with \<open>reachable st\<close> show ?thesis
      by (simp add: checkRateLimit_reject admitted_def stored_def)
  next
    case False
    with \<open>reachable st\<close> show ?thesis
      by (simp add: checkRateLimit_admit admitted_def stored_def)
  qed
qed

text \<open>
  Under a clock that does not run backwards the stored list stays in arrival order, so
  that its first element inside the window is the oldest one.
\<close>

lemma stored_sorted_preserved:
  assumes "sorted (stored st k)" and "\<forall>a\<in>set (stored st k). a \<le> now"
  shows "sorted (stored (snd (checkRateLimit cfg now key st)) k) \<and>
         (\<forall>a\<in>set (stored (snd (checkRateLimit cfg now key st)) k). a \<le> now)"
proof (cases "key = k")
  case False
  then show ?thesis using assms by (simp add: checkRateLimit_other_key)
next
  case True
  have "sorted (inWindow cfg now (stored st k) @ [now])"
    using assms by (auto simp: inWindow_def sorted_append sorted_wrt_filter)
  moreover have "\<forall>a\<in>set (inWindow cfg now (stored st k) @ [now]). a \<le> now"
    using assms by (auto simp: inWindow_def)
  ultimately show ?thesis
    using checkRateLimit_same_key[of cfg now k st] assms True by auto
qed

lemma first_in_window_is_oldest:
  assumes "sorted l" and "inWindow cfg now l \<noteq> []"
  shows "hd (inWindow cfg now l) = Min (set (inWindow cfg now l))"
proof -
  have "sorted (inWindow cfg now l)"
    using assms(1) by (simp add: inWindow_def sorted_wrt_filter)
  with assms(2) show ?thesis
    by (cases "inWindow cfg now l") (auto intro!: Min_eqI[symmetric])
qed

subsection \<open>Sequences of checks\<close>

lemma covers_later: "covers w m H L \<Longrightarrow> m \<le> n \<Longrightarrow> covers w n H L"
  by (simp add: covers_def)

lemma covers_admit:
  assumes "covers w m H L" "m \<le> n"
  shows "covers w n (H @ [n]) (filter (\<lambda>ts. ts > n - w) L @ [n])"
  unfolding covers_def
proof (intro allI impI)
  fix x assume x: "n - w \<le> x"
  have "filter (\<lambda>a. x < a) (filter (\<lambda>ts. ts > n - w) L) = filter (\<lambda>a. x < a) L"
    using x by (auto intro: filter_cong)
  moreover have "length (filter (\<lambda>a. x < a) H) \<le> length (filter (\<lambda>a. x < a) L)"
    using assms x by (simp add: covers_def)
  ultimately show "length (filter (\<lambda>a. x < a) (H @ [n]))
      \<le> length (filter (\<lambda>a. x < a) (filter (\<lambda>ts. ts > n - w) L @ [n]))"
    by simp
qed

lemma window_admit:
  assumes cov: "covers w m H L" and mn: "m \<le> n"
    and H: "\<forall>a\<in>set H. a \<le> m"
    and bound: "\<And>t. int (length (filter (withinWindow w t) H)) \<le> M"
    and room: "int (length (filter (\<lambda>ts. ts > n - w) L)) < M"
  shows "int (length (filter (withinWindow w t) (H @ [n]))) \<le> M"
proof (cases "n \<le> t")
  case False
  then have "filter (withinWindow w t) (H @ [n]) = filter (withinWindow w t) H"
    by (simp add: withinWindow_def)
  then show ?thesis using bound by simp
next
  case True
  have "length (filter (withinWindow w t) H) \<le> length (filter (\<lambda>a. n - w < a) H)"
  proof -
    have "filter (withinWindow w t) H = filter (withinWindow w t) (filter (\<lambda>a. n - w < a) H)"
      using True by (auto simp: withinWindow_def intro: filter_cong)
    then show ?thesis by (metis length_filter_le)
  qed
  also have "\<dots> \<le> length (filter (\<lambda>a. n - w < a) L)"
    using cov mn by (simp add: covers_def)
  finally have "int (length (filter (withinWindow w t) H)) + 1 \<le> M"
    using room by simp
  then show ?thesis by simp
qed

lemma window_bound_gen:
  assumes "sorted (map snd calls)" and "\<forall>c\<in>set calls. m \<le> snd c"
    and "\<forall>a\<in>set H. a \<le> m" and "covers (windowMs cfg) m H (stored st k)"
    and "\<And>t. int (length (filter (withinWindow (windowMs cfg) t) H)) \<le> maxRequests cfg"
  shows "int (length (filter (withinWindow (windowMs cfg) t) (H @ admittedAt cfg k calls st)))
          \<le> maxRequests cfg"
  using assms
proof (induction calls arbitrary: H st m)
  case Nil
  then show ?case by simp
next
  case (Cons c calls)
  obtain key now where c: "c = (key, now)" by (cases c)
  obtain r st' where step: "checkRateLimit cfg now key st = (r, st')"
    by (cases "checkRateLimit cfg now key st")
  have mn: "m \<le> now" using Cons.prems(2) c by simp
  have sorted': "sorted (map snd calls)" using Cons.prems(1) by simp
  have later: "\<forall>c\<in>set calls. now \<le> snd c" using Cons.prems(1) c by auto
  have Hn: "\<forall>a\<in>set H. a \<le> now" using Cons.prems(3) mn by auto
  show ?case
  proof (cases "key = k \<and> admitted r")
    case False
    have "stored st' k = stored st k"
    proof (cases "key = k")
      case True
      with False step checkRateLimit_same_key[of cfg now k st] show ?thesis by auto
    next
      case False
      with step checkRateLimit_other_key[of key k cfg now st] show ?thesis by simp
    qed
    then have "covers (windowMs cfg) now H (stored st' k)"
      using Cons.prems(4) mn by (simp add: covers_later)
    moreover have "admittedAt cfg k (c # calls) st = admittedAt cfg k calls st'"
      using False step c by auto
    ultimately show ?thesis
      using Cons.IH[OF sorted' later Hn _ Cons.prems(5)] by simp
  next
    case True
    with step checkRateLimit_same_key[of cfg now k st]
    have room: "int (length (inWindow cfg now (stored st k))) < maxRequests cfg"
      and st': "stored st' k = inWindow cfg now (stored st k) @ [now]"
      by auto
    have cov': "covers (windowMs cfg) now (H @ [now]) (stored st' k)"
      using covers_admit[OF Cons.prems(4) mn] st' by (simp add: inWindow_def)
    have H': "\<forall>a\<in>set (H @ [now]). a \<le> now" using Hn by simp
    have b': "\<And>t. int (length (filter (withinWindow (windowMs cfg) t) (H @ [now])))
                \<le> maxRequests cfg"
      using window_admit[OF Cons.prems(4) mn Cons.prems(3) Cons.prems(5)] room
      by (simp add: inWindow_def)
    have "admittedAt cfg k (c # calls) st = now # admittedAt cfg k calls st'"
      using True step c by simp
    then show ?thesis
      using Cons.IH[OF sorted' later H' cov' b'] by simp
  qed
qed

lemma window_bound:
  assumes "sorted (map snd calls)" and "0 \<le> maxRequests cfg"
  shows "int (length (filter (\<lambda>a. t - windowMs cfg < a \<and> a \<le> t) (admittedAt cfg k calls st)))
          \<le> maxRequests cfg"
proof (cases calls)
  case Nil
  then show ?thesis using assms(2) by simp
next
  case (Cons c cs)
  have "\<forall>c'\<in>set calls. snd c \<le> snd c'"
    using assms(1) Cons by auto
  moreover have "covers (windowMs cfg) (snd c) [] (stored st k)"
    by (simp add: covers_def)
  ultimately have
    "int (length (filter (withinWindow (windowMs cfg) t) ([] @ admittedAt cfg k calls st)))
       \<le> maxRequests cfg"
    using assms by (intro window_bound_gen[where m = "snd c"]) simp_all
  moreover have "withinWindow (windowMs cfg) t = (\<lambda>a. t - windowMs cfg < a \<and> a \<le> t)"
    by (simp add: withinWindow_def fun_eq_iff)
  ultimately show ?thesis by simp
qed

subsection \<open>The window bound and the three outcomes of a check\<close>

text \<open>
  Claim C1.  Let checks arrive one after the other, for any keys, under a clock that does
  not run backwards, and let the limit be positive.  Then for every key \<open>k\<close> and every
  instant \<open>t\<close>, at most \<open>maxRequests\<close> of the admitted checks of \<open>k\<close> lie in the window
  \<open>(t - windowMs, t]\<close>, from whatever store the sequence starts.  For a single check on
  a reachable store: the instants counted are those of the stored list that are not
  \<open>\<le> now - windowMs\<close>; when their number is \<open>\<ge> maxRequests\<close> the check is rejected
  with \<open>remaining = 0\<close> and \<open>resetAt\<close> the first of them plus \<open>windowMs\<close>, the store is
  only read, and the first is the oldest when the stored list is in arrival order; when
  their number is below the limit, the check is admitted, \<open>now\<close> is appended, the list
  is written back under the key, and \<open>remaining = maxRequests - newCount\<close>.
\<close>

theorem sliding_window_admission:
  assumes "sorted (map snd calls)" and "0 < maxRequests cfg"
  shows "int (length (filter (\<lambda>a. t - windowMs cfg < a \<and> a \<le> t) (admittedAt cfg k calls st)))
           \<le> maxRequests cfg
     \<and> inWindow cfg now (stored st1 key) = filter (\<lambda>ts. \<not> ts \<le> now - windowMs cfg) (stored st1 key)
     \<and> (reachable st1 \<and> maxRequests cfg \<le> int (length (inWindow cfg now (stored st1 key))) \<longrightarrow>
          checkRateLimit cfg now key st1 =
            (Inr \<lparr>allowed = False, remaining = 0,
                  resetAt = Num (hd (inWindow cfg now (stored st1 key)) + windowMs cfg)\<rparr>,
             st1\<lparr>reads := Suc (reads st1)\<rparr>)
          \<and> (sorted (stored st1 key) \<longrightarrow>
                hd (inWindow cfg now (stored st1 key)) = Min (set (inWindow cfg now (stored st1 key)))))
     \<and> (reachable st1 \<and> int (length (inWindow cfg now (stored st1 key))) < maxRequests cfg \<longrightarrow>
          checkRateLimit cfg now key st1 =
            (Inr \<lparr>allowed = True,
                  remaining = maxRequests cfg - int (length (inWindow cfg now (stored st1 key) @ [now])),
                  resetAt = Num (now + windowMs cfg)\<rparr>,
             st1\<lparr>reads := Suc (reads st1),
                 entries := (entries st1)(key \<mapsto> inWindow cfg now (stored st1 key) @ [now]),
                 writes := Suc (writes st1)\<rparr>))"
proof -
  have bound: "int (length (filter (\<lambda>a. t - windowMs cfg < a \<and> a \<le> t) (admittedAt cfg k calls st)))
           \<le> maxRequests cfg"
    using assms by (intro window_bound) simp_all
  have drop: "inWindow cfg now (stored st1 key)
        = filter (\<lambda>ts. \<not> ts \<le> now - windowMs cfg) (stored st1 key)"
    by (simp add: inWindow_def not_le)
  have reject: "checkRateLimit cfg now key st1 =
            (Inr \<lparr>allowed = False, remaining = 0,
                  resetAt = Num (hd (inWindow cfg now (stored st1 key)) + windowMs cfg)\<rparr>,
             st1\<lparr>reads := Suc (reads st1)\<rparr>)
          \<and> (sorted (stored st1 key) \<longrightarrow>
                hd (inWindow cfg now (stored st1 key)) = Min (set (inWindow cfg now (stored st1 key))))"
    if r: "reachable st1" and full: "maxRequests cfg \<le> int (length (inWindow cfg now (stored st1 key)))"
  proof -
    from full assms(2) have ne: "inWindow cfg now (stored st1 key) \<noteq> []" by auto
    then obtain t0 rest where W: "inWindow cfg now (stored st1 key) = t0 # rest"
      by (cases "inWindow cfg now (stored st1 key)") auto
    have "checkRateLimit cfg now key st1 =
            (Inr \<lparr>allowed = False, remaining = 0,
                  resetAt = Num (hd (inWindow cfg now (stored st1 key)) + windowMs cfg)\<rparr>,
             st1\<lparr>reads := Suc (reads st1)\<rparr>)"
      using checkRateLimit_reject[OF r full] W by simp
    moreover have "sorted (stored st1 key) \<longrightarrow>
        hd (inWindow cfg now (stored st1 key)) = Min (set (inWindow cfg now (stored st1 key)))"
      using first_in_window_is_oldest[OF _ ne] by blast
    ultimately show ?thesis by blast
  qed
  have admit: "checkRateLimit cfg now key st1 =
            (Inr \<lparr>allowed = True,
                  remaining = maxRequests cfg - int (length (inWindow cfg now (stored st1 key) @ [now])),
                  resetAt = Num (now + windowMs cfg)\<rparr>,
             st1\<lparr>reads := Suc (reads st1),
                 entries := (entries st1)(key \<mapsto> inWindow cfg now (stored st1 key) @ [now]),
                 writes := Suc (writes st1)\<rparr>)"
    if r: "reachable st1" and room: "int (length (inWindow cfg now (stored st1 key))) < maxRequests cfg"
    using checkRateLimit_admit[OF r room] by simp
  from bound drop reject admit show ?thesis by blast
qed

lemma example_run:
  "admittedAt exampleLimit ''gateway:ratelimit:ip:1.2.3.4''
     [(''gateway:ratelimit:ip:1.2.3.4'', 0), (''gateway:ratelimit:ip:1.2.3.4'', 100),
      (''gateway:ratelimit:ip:1.2.3.4'', 200)] emptyRateStore = [0, 100]"
  by (simp add: exampleLimit_def emptyRateStore_def checkRateLimit_def beginCheck_def
      finishCheck_def sm_get_def sm_set_def admitted_def Let_def)

theorem sliding_window_admission_witness:
  "sorted (map snd [(''gateway:ratelimit:ip:1.2.3.4'', 0::int), (''gateway:ratelimit:ip:1.2.3.4'', 100),
      (''gateway:ratelimit:ip:1.2.3.4'', 200)])
   \<and> 0 < maxRequests exampleLimit
   \<and> admittedAt exampleLimit ''gateway:ratelimit:ip:1.2.3.4''
     [(''gateway:ratelimit:ip:1.2.3.4'', 0), (''gateway:ratelimit:ip:1.2.3.4'', 100),
      (''gateway:ratelimit:ip:1.2.3.4'', 200)] emptyRateStore = [0, 100]
   \<and> int (length (filter (\<lambda>a. 200 - windowMs exampleLimit < a \<and> a \<le> 200) [0, 100]))
        \<le> maxRequests exampleLimit
   \<and> checkRateLimit exampleLimit 200 ''gateway:ratelimit:ip:1.2.3.4'' twoAdmitted =
        (Inr \<lparr>allowed = False, remaining = 0, resetAt = Num 60000\<rparr>,
         twoAdmitted\<lparr>reads := Suc (reads twoAdmitted)\<rparr>)
   \<and> checkRateLimit exampleLimit 60000 ''gateway:ratelimit:ip:1.2.3.4'' twoAdmitted =
        (Inr \<lparr>allowed = True, remaining = 0, resetAt = Num 120000\<rparr>,
         twoAdmitted\<lparr>reads := Suc (reads twoAdmitted),
            entries := (entries twoAdmitted)(''gateway:ratelimit:ip:1.2.3.4'' \<mapsto> [100, 60000]),
            writes := Suc (writes twoAdmitted)\<rparr>)"
proof -
  let ?k = "''gateway:ratelimit:ip:1.2.3.4''"
  let ?calls = "[(?k, 0::int), (?k, 100), (?k, 200)]"
  have s: "sorted (map snd ?calls)" by simp
  have m: "0 < maxRequests exampleLimit" by (simp add: exampleLimit_def)
  have W1: "inWindow exampleLimit 200 (stored twoAdmitted ?k) = [0, 100]"
    by (simp add: inWindow_def stored_def twoAdmitted_def exampleLimit_def)
  have W2: "inWindow exampleLimit 60000 (stored twoAdmitted ?k) = [100]"
    by (simp add: inWindow_def stored_def twoAdmitted_def exampleLimit_def)
  have r: "reachable twoAdmitted" by (simp add: twoAdmitted_def emptyRateStore_def)
  have full: "maxRequests exampleLimit \<le> int (length (inWindow exampleLimit 200 (stored twoAdmitted ?k)))"
    unfolding W1 by (simp add: exampleLimit_def)
  have room: "int (length (inWindow exampleLimit 60000 (stored twoAdmitted ?k))) < maxRequests exampleLimit"
    unfolding W2 by (simp add: exampleLimit_def)
  from sliding_window_admission[OF s m, of 200 ?k emptyRateStore 200 twoAdmitted ?k] r full
  have "int (length (filter (\<lambda>a. 200 - windowMs exampleLimit < a \<and> a \<le> 200)
            (admittedAt exampleLimit ?k ?calls emptyRateStore))) \<le> maxRequests exampleLimit"
    and "checkRateLimit exampleLimit 200 ?k twoAdmitted =
            (Inr \<lparr>allowed = False, remaining = 0,
                  resetAt = Num (hd (inWindow exampleLimit 200 (stored twoAdmitted ?k))
                                 + windowMs exampleLimit)\<rparr>,
             twoAdmitted\<lparr>reads := Suc (reads twoAdmitted)\<rparr>)"
    by blast+
  moreover
  from sliding_window_admission[OF s m, of 200 ?k emptyRateStore 60000 twoAdmitted ?k] r room
  have "checkRateLimit exampleLimit 60000 ?k twoAdmitted =
            (Inr \<lparr>allowed = True,
                  remaining = maxRequests exampleLimit
                     - int (length (inWindow exampleLimit 60000 (stored twoAdmitted ?k) @ [60000])),
                  resetAt = Num (60000 + windowMs exampleLimit)\<rparr>,
             twoAdmitted\<lparr>reads := Suc (reads twoAdmitted),
                 entries := (entries twoAdmitted)
                    (?k \<mapsto> inWindow exampleLimit 60000 (stored twoAdmitted ?k) @ [60000]),
                 writes := Suc (writes twoAdmitted)\<rparr>)"
    by blast
  ultimately show ?thesis
    unfolding example_run W1 W2 using s m by (simp add: exampleLimit_def)
qed

subsection \<open>A rejected check writes nothing\<close>

text \<open>
  Claim C9.  When \<open>checkRateLimit\<close> returns a rejection, the count inside the window had
  reached \<open>maxRequests\<close>, no \<open>set\<close> was issued, and the entries of the store (so the list
  of the key) are the ones before the call: the only trace of the call is its read.
\<close>

theorem rejected_check_writes_nothing:
  assumes "checkRateLimit cfg now key st = (Inr res, st')" and "\<not> allowed res"
  shows "maxRequests cfg \<le> int (length (inWindow cfg now (stored st key)))
     \<and> st' = st\<lparr>reads := Suc (reads st)\<rparr>
     \<and> entries st' = entries st \<and> writes st' = writes st"
proof -
  have r: "reachable st"
    using assms(1) by (cases "reachable st") (simp_all add: checkRateLimit_unreachable)
  have full: "maxRequests cfg \<le> int (length (inWindow cfg now (stored st key)))"
  proof (rule ccontr)
    assume "\<not> ?thesis"
    then have "int (length (inWindow cfg now (stored st key))) < maxRequests cfg" by simp
    from checkRateLimit_admit[OF r this] assms show False by auto
  qed
  from checkRateLimit_reject[OF r full] assms(1) have "st' = st\<lparr>reads := Suc (reads st)\<rparr>"
    by simp
  with full show ?thesis by simp
qed

theorem rejected_check_writes_nothing_witness:
  "checkRateLimit exampleLimit 200 ''gateway:ratelimit:ip:1.2.3.4'' twoAdmitted =
        (Inr \<lparr>allowed = False, remaining = 0, resetAt = Num 60000\<rparr>,
         twoAdmitted\<lparr>reads := Suc (reads twoAdmitted)\<rparr>)
   \<and> \<not> allowed \<lparr>allowed = False, remaining = 0, resetAt = Num 60000\<rparr>
   \<and> entries (twoAdmitted\<lparr>reads := Suc (reads twoAdmitted)\<rparr>) = entries twoAdmitted
   \<and> writes (twoAdmitted\<lparr>reads := Suc (reads twoAdmitted)\<rparr>) = writes twoAdmitted"
proof -
  have c: "checkRateLimit exampleLimit 200 ''gateway:ratelimit:ip:1.2.3.4'' twoAdmitted =
        (Inr \<lparr>allowed = False, remaining = 0, resetAt = Num 60000\<rparr>,
         twoAdmitted\<lparr>reads := Suc (reads twoAdmitted)\<rparr>)"
    by (simp add: exampleLimit_def twoAdmitted_def emptyRateStore_def checkRateLimit_def
        beginCheck_def finishCheck_def sm_get_def Let_def)
  have n: "\<not> allowed \<lparr>allowed = False, remaining = 0, resetAt = Num 60000\<rparr>" by simp
  from rejected_check_writes_nothing[OF c n] c n show ?thesis by simp
qed

subsection \<open>Two checks whose waits overlap\<close>

text \<open>
  Claim C2.  With a limit of one request per minute and an empty store, two checks of one
  key whose reads both precede both writes are both admitted: each sees the empty list.
  The write of the second replaces the write of the first, so that the store then holds
  one instant.  Run one after the other, the second check is rejected.
\<close>

theorem concurrent_checks_exceed_limit:
  "racingChecks \<lparr>enabled = True, windowMs = 60000, maxRequests = 1\<rparr> 1000 1001
       ''gateway:ratelimit:ip:1.2.3.4'' emptyRateStore =
     (Inr \<lparr>allowed = True, remaining = 0, resetAt = Num 61000\<rparr>,
      Inr \<lparr>allowed = True, remaining = 0, resetAt = Num 61001\<rparr>,
      \<lparr>entries = (\<lambda>_. None)(''gateway:ratelimit:ip:1.2.3.4'' \<mapsto> [1001]),
       reachable = True, reads = 2, writes = 2\<rparr>)
   \<and> (case checkRateLimit \<lparr>enabled = True, windowMs = 60000, maxRequests = 1\<rparr> 1000
             ''gateway:ratelimit:ip:1.2.3.4'' emptyRateStore of
         (rA, st1) \<Rightarrow>
           (rA, fst (checkRateLimit \<lparr>enabled = True, windowMs = 60000, maxRequests = 1\<rparr> 1001
             ''gateway:ratelimit:ip:1.2.3.4'' st1))) =
     (Inr \<lparr>allowed = True, remaining = 0, resetAt = Num 61000\<rparr>,
      Inr \<lparr>allowed = False, remaining = 0, resetAt = Num 61000\<rparr>)"
  by (simp add: racingChecks_def emptyRateStore_def checkRateLimit_def beginCheck_def
      finishCheck_def sm_get_def sm_set_def Let_def)

section \<open>Properties of the worker registry\<close>

subsection \<open>The two loops of a tick\<close>

lemma offlineIds_append [simp]: "offlineIds (a @ b) = offlineIds a @ offlineIds b"
  by (simp add: offlineIds_def)

lemma offlineIds_Nil [simp]: "offlineIds [] = []"
  by (simp add: offlineIds_def)

lemma offlineIds_single [simp]:
  "offlineIds [(n, p)] = (if n = ''gateway:worker:offline'' then [ev_workerId p] else [])"
  by (simp add: offlineIds_def)

lemma removeOffline_keys:
  "fst ` set (fst (removeOffline now prev cur w evs)) = fst ` set w - (set prev - set cur)"
proof (induction prev arbitrary: w evs)
  case Nil
  then show ?case by simp
next
  case (Cons oldId rest)
  have "fst ` set (AList.delete oldId w) = fst ` set w - {oldId}"
    by (auto simp: AList.delete_eq)
  with Cons show ?case by (auto simp: Let_def)
qed

lemma removeOffline_events:
  "offlineIds (snd (removeOffline now prev cur w evs))
     = offlineIds evs @ filter (\<lambda>i. i \<notin> set cur) prev"
  by (induction prev arbitrary: w evs) (simp_all add: Let_def)

lemma fetchWorkers_succeeds:
  assumes "\<forall>i\<in>set ids. \<not> unreadable ws (''worker:'' @ i @ '':status'')"
  shows "\<exists>w1 cur1 evs1. fetchWorkers now ws ids w cur evs = (None, w1, cur1, evs1)
           \<and> set cur1 = set cur \<union> set ids
           \<and> fst ` set w \<subseteq> fst ` set w1
           \<and> offlineIds evs1 = offlineIds evs"
  using assms
proof (induction ids arbitrary: w cur evs)
  case Nil
  then show ?case by simp
next
  case (Cons i ids)
  have rd: "readStatus ws i = Inr (workerStatus ws i)"
    using Cons.prems by (simp add: readStatus_def)
  have rest: "\<forall>i\<in>set ids. \<not> unreadable ws (''worker:'' @ i @ '':status'')"
    using Cons.prems by simp
  show ?case
  proof (cases "workerStatus ws i")
    case None
    from Cons.IH[OF rest, of w "List.insert i cur" evs] rd None
    show ?thesis by (auto simp: Let_def)
  next
    case (Some d)
    let ?p = "\<lparr>ev_workerId = i, ev_region = region d, ev_gpu = gpuName (Some d),
               ev_status = status d, ev_lastHeartbeat = now\<rparr>"
    let ?evs = "(case map_of w i of
                        None \<Rightarrow> evs @ [(''gateway:worker:online'', ?p)]
                      | Some prev \<Rightarrow>
                          if status prev \<noteq> status d
                          then evs @ [(''gateway:worker:updated'', ?p)] else evs)"
    have e: "offlineIds ?evs = offlineIds evs"
      by (simp split: option.split)
    have k: "fst ` set w \<subseteq> fst ` set (AList.update i d w)"
      by (auto simp: dom_update)
    from Cons.IH[OF rest, of "AList.update i d w" "List.insert i cur" ?evs]
    obtain w1 cur1 evs1 where
      "fetchWorkers now ws ids (AList.update i d w) (List.insert i cur) ?evs = (None, w1, cur1, evs1)"
      "set cur1 = set (List.insert i cur) \<union> set ids"
      "fst ` set (AList.update i d w) \<subseteq> fst ` set w1"
      "offlineIds evs1 = offlineIds ?evs"
      by blast
    with rd Some e k show ?thesis
      by (auto simp: Let_def)
  qed
qed

lemma refreshWorkers_index_unreadable:
  "unreadable ws ''worker:index'' \<Longrightarrow> refreshWorkers now ws workers = (workers, [])"
  by (simp add: refreshWorkers_def discoverWorkerIds_def readIndex_def)

lemma refreshWorkers_complete_tick:
  assumes "discoverWorkerIds ws = Inr ids"
    and "\<forall>i\<in>set ids. \<not> unreadable ws (''worker:'' @ i @ '':status'')"
  shows "fst ` set (fst (refreshWorkers now ws workers))
           \<inter> fst ` set workers = fst ` set workers \<inter> set ids"
    and "offlineIds (snd (refreshWorkers now ws workers))
           = filter (\<lambda>i. i \<notin> set ids) (map fst workers)"
proof -
  from fetchWorkers_succeeds[OF assms(2), of now workers "[]" "[]"]
  obtain w1 cur1 evs1 where f: "fetchWorkers now ws ids workers [] [] = (None, w1, cur1, evs1)"
    and cur: "set cur1 = set ids" and keys: "fst ` set workers \<subseteq> fst ` set w1"
    and evs: "offlineIds evs1 = []"
    by auto
  have r: "refreshWorkers now ws workers = removeOffline now (map fst workers) cur1 w1 evs1"
    using assms(1) f by (simp add: refreshWorkers_def)
  show "fst ` set (fst (refreshWorkers now ws workers))
           \<inter> fst ` set workers = fst ` set workers \<inter> set ids"
    unfolding r removeOffline_keys using cur keys by auto
  show "offlineIds (snd (refreshWorkers now ws workers))
           = filter (\<lambda>i. i \<notin> set ids) (map fst workers)"
    unfolding r removeOffline_events using cur evs by simp
qed

lemma fetchWorkers_fails:
  assumes "\<exists>i\<in>set ids. unreadable ws (''worker:'' @ i @ '':status'')"
  shows "\<exists>e w1 cur1 evs1. fetchWorkers now ws ids w cur evs = (Some e, w1, cur1, evs1)
           \<and> fst ` set w \<subseteq> fst ` set w1
           \<and> offlineIds evs1 = offlineIds evs"
  using assms
proof (induction ids arbitrary: w cur evs)
  case Nil
  then show ?case by simp
next
  case (Cons i ids)
  show ?case
  proof (cases "unreadable ws (''worker:'' @ i @ '':status'')")
    case True
    then show ?thesis by (simp add: readStatus_def Let_def)
  next
    case False
    then have rd: "readStatus ws i = Inr (workerStatus ws i)"
      by (simp add: readStatus_def)
    from False Cons.prems have rest: "\<exists>i\<in>set ids. unreadable ws (''worker:'' @ i @ '':status'')"
      by auto
    show ?thesis
    proof (cases "workerStatus ws i")
      case None
      from Cons.IH[OF rest, of w "List.insert i cur" evs] rd None
      show ?thesis by (auto simp: Let_def)
    next
      case (Some d)
      let ?p = "\<lparr>ev_workerId = i, ev_region = region d, ev_gpu = gpuName (Some d),
                 ev_status = status d, ev_lastHeartbeat = now\<rparr>"
      let ?evs = "(case map_of w i of
                          None \<Rightarrow> evs @ [(''gateway:worker:online'', ?p)]
                        | Some prev \<Rightarrow>
                            if status prev \<noteq> status d
                            then evs @ [(''gateway:worker:updated'', ?p)] else evs)"
      have e: "offlineIds ?evs = offlineIds evs"
        by (simp split: option.split)
      have k: "fst ` set w \<subseteq> fst ` set (AList.update i d w)"
        by (auto simp: dom_update)
      from Cons.IH[OF rest, of "AList.update i d w" "List.insert i cur" ?evs]
      obtain e' w1 cur1 evs1 where
        "fetchWorkers now ws ids (AList.update i d w) (List.insert i cur) ?evs = (Some e', w1, cur1, evs1)"
        "fst ` set (AList.update i d w) \<subseteq> fst ` set w1"
        "offlineIds evs1 = offlineIds ?evs"
        by blast
      with rd Some e k show ?thesis
        by (auto simp: Let_def)
    qed
  qed
qed

lemma refreshWorkers_incomplete_tick:
  assumes "\<not> tickCompletes ws"
  shows "fst ` set workers \<subseteq> fst ` set (fst (refreshWorkers now ws workers))
     \<and> offlineIds (snd (refreshWorkers now ws workers)) = []"
proof (cases "discoverWorkerIds ws")
  case (Inl e)
  then show ?thesis by (simp add: refreshWorkers_def)
next
  case (Inr ids)
  with assms have "\<exists>i\<in>set ids. unreadable ws (''worker:'' @ i @ '':status'')"
    by (simp add: tickCompletes_def list_all_iff)
  from fetchWorkers_fails[OF this, of now workers "[]" "[]"]
  obtain e w1 cur1 evs1 where f: "fetchWorkers now ws ids workers [] [] = (Some e, w1, cur1, evs1)"
    and k: "fst ` set workers \<subseteq> fst ` set w1" and o: "offlineIds evs1 = []"
    by auto
  have "refreshWorkers now ws workers = (w1, evs1)"
    using Inr f by (simp add: refreshWorkers_def)
  with k o show ?thesis by simp
qed

lemma refreshWorkers_empty_index:
  assumes "\<not> unreadable ws ''worker:index''"
    and "workerIndex ws = None \<or> workerIndex ws = Some []"
  shows "refreshWorkers now ws workers
    = removeOffline now (map fst workers) [] workers []"
  using assms by (auto simp add: refreshWorkers_def discoverWorkerIds_def readIndex_def)

lemmas registry_eval =
  refreshWorkers_def discoverWorkerIds_def readIndex_def readStatus_def gpuName_def
  statusAB_def neverUnreadable_def indexUnreadable_def snapshotAB_def Let_def

subsection \<open>A tick whose index read fails, or returns nothing\<close>

text \<open>
  Claim C3, as it stands, fails: with workers A and B in the snapshot, a tick whose index
  read succeeds and finds no value under \<open>worker:index\<close> empties the snapshot and
  publishes \<open>gateway:worker:offline\<close> for A and for B.
\<close>

theorem absent_index_removes_all_counterexample:
  "refreshWorkers 5000 indexAbsent snapshotAB =
     ([], [(''gateway:worker:offline'',
             \<lparr>ev_workerId = ''A'', ev_region = ''us-east'', ev_gpu = ''A100'', ev_status = Offline,
              ev_lastHeartbeat = 5000\<rparr>),
           (''gateway:worker:offline'',
             \<lparr>ev_workerId = ''B'', ev_region = ''eu-west'', ev_gpu = ''unknown'', ev_status = Offline,
              ev_lastHeartbeat = 5000\<rparr>)])"
  by (simp add: registry_eval indexAbsent_def workerA_def workerB_def)

text \<open>
  Claim C3, amended.  A tick whose index read is rejected is a no-op: the snapshot is the
  one before the tick and no event is published.  A tick whose index read succeeds with
  an absent or an empty list is a read of zero ids: the snapshot becomes empty, and
  \<open>gateway:worker:offline\<close> is published once for every worker that was in it, in the
  order of the snapshot.
\<close>

theorem failed_index_read_keeps_snapshot:
  "(unreadable ws ''worker:index'' \<longrightarrow> refreshWorkers now ws workers = (workers, []))
   \<and> (\<not> unreadable ws ''worker:index'' \<and> (workerIndex ws = None \<or> workerIndex ws = Some []) \<longrightarrow>
        fst (refreshWorkers now ws workers) = []
        \<and> offlineIds (snd (refreshWorkers now ws workers)) = map fst workers)"
proof (intro conjI impI)
  assume "unreadable ws ''worker:index''"
  then show "refreshWorkers now ws workers = (workers, [])"
    by (rule refreshWorkers_index_unreadable)
next
  assume a: "\<not> unreadable ws ''worker:index'' \<and> (workerIndex ws = None \<or> workerIndex ws = Some [])"
  then have r: "refreshWorkers now ws workers = removeOffline now (map fst workers) [] workers []"
    by (intro refreshWorkers_empty_index) auto
  have "fst ` set (fst (refreshWorkers now ws workers)) = {}"
    unfolding r removeOffline_keys by auto
  then show "fst (refreshWorkers now ws workers) = []" by simp
  show "offlineIds (snd (refreshWorkers now ws workers)) = map fst workers"
    unfolding r removeOffline_events by simp
qed

theorem failed_index_read_keeps_snapshot_witness:
  "unreadable indexDown ''worker:index''
   \<and> refreshWorkers 5000 indexDown snapshotAB = (snapshotAB, [])
   \<and> \<not> unreadable indexAbsent ''worker:index'' \<and> workerIndex indexAbsent = None
   \<and> fst (refreshWorkers 5000 indexAbsent snapshotAB) = []
   \<and> offlineIds (snd (refreshWorkers 5000 indexAbsent snapshotAB)) = [''A'', ''B'']"
proof -
  have d: "unreadable indexDown ''worker:index''"
    by (simp add: indexDown_def indexUnreadable_def)
  have a: "\<not> unreadable indexAbsent ''worker:index''" "workerIndex indexAbsent = None"
    by (simp_all add: indexAbsent_def neverUnreadable_def)
  from failed_index_read_keeps_snapshot[of indexDown 5000 snapshotAB] d
  have "refreshWorkers 5000 indexDown snapshotAB = (snapshotAB, [])" by blast
  moreover from failed_index_read_keeps_snapshot[of indexAbsent 5000 snapshotAB] a
  have "fst (refreshWorkers 5000 indexAbsent snapshotAB) = []
        \<and> offlineIds (snd (refreshWorkers 5000 indexAbsent snapshotAB)) = map fst snapshotAB"
    by blast
  ultimately show ?thesis using d a by (simp add: snapshotAB_def)
qed

subsection \<open>When a known worker is removed\<close>

text \<open>
  Claim C4, as it stands, fails: after a tick that found A and B in the index, one tick
  whose index lists A alone removes B and publishes \<open>gateway:worker:offline\<close> for it.
\<close>

theorem single_absence_counterexample:
  "refreshWorkers 0 indexAB [] =
     (snapshotAB,
      [(''gateway:worker:online'',
          \<lparr>ev_workerId = ''A'', ev_region = ''us-east'', ev_gpu = ''A100'', ev_status = Idle,
           ev_lastHeartbeat = 0\<rparr>),
       (''gateway:worker:online'',
          \<lparr>ev_workerId = ''B'', ev_region = ''eu-west'', ev_gpu = ''unknown'', ev_status = Busy,
           ev_lastHeartbeat = 0\<rparr>)])
   \<and> refreshWorkers 5000 indexOnlyA snapshotAB =
     ([(''A'', workerA)],
      [(''gateway:worker:offline'',
          \<lparr>ev_workerId = ''B'', ev_region = ''eu-west'', ev_gpu = ''unknown'', ev_status = Offline,
           ev_lastHeartbeat = 5000\<rparr>)])"
  by (simp add: registry_eval indexAB_def indexOnlyA_def workerA_def workerB_def)

text \<open>
  Claim C4, amended.  A worker that is in the snapshot before a tick is removed by that
  tick, and gets its \<open>gateway:worker:offline\<close> event, exactly when every read of the tick
  succeeds and the index does not list the worker: one absence is enough.  A worker
  that the index lists, and every worker of a tick in which a read is rejected, is kept
  and gets no \<open>gateway:worker:offline\<close> event.
\<close>

theorem single_absence_removes_worker:
  assumes "k \<in> fst ` set workers"
  shows "(k \<notin> fst ` set (fst (refreshWorkers now ws workers))
            \<longleftrightarrow> tickCompletes ws \<and> k \<notin> set (listedIds ws))
       \<and> (k \<in> set (offlineIds (snd (refreshWorkers now ws workers)))
            \<longleftrightarrow> tickCompletes ws \<and> k \<notin> set (listedIds ws))"
proof (cases "tickCompletes ws")
  case False
  from refreshWorkers_incomplete_tick[OF False, where workers = workers and now = now] assms
  show ?thesis using False by auto
next
  case True
  then obtain ids where i: "discoverWorkerIds ws = Inr ids"
    and r: "\<forall>i\<in>set ids. \<not> unreadable ws (''worker:'' @ i @ '':status'')"
    by (auto simp: tickCompletes_def list_all_iff split: sum.splits)
  have l: "listedIds ws = ids" using i by (simp add: listedIds_def)
  from refreshWorkers_complete_tick[OF i r, where workers = workers and now = now] assms True l
  show ?thesis by auto
qed

theorem single_absence_removes_worker_witness:
  "''B'' \<in> fst ` set snapshotAB \<and> ''A'' \<in> fst ` set snapshotAB
   \<and> tickCompletes indexOnlyA \<and> listedIds indexOnlyA = [''A'']
   \<and> ''B'' \<notin> fst ` set (fst (refreshWorkers 5000 indexOnlyA snapshotAB))
   \<and> ''B'' \<in> set (offlineIds (snd (refreshWorkers 5000 indexOnlyA snapshotAB)))
   \<and> ''A'' \<in> fst ` set (fst (refreshWorkers 5000 indexOnlyA snapshotAB))
   \<and> ''A'' \<notin> set (offlineIds (snd (refreshWorkers 5000 indexOnlyA snapshotAB)))"
proof -
  have i: "discoverWorkerIds indexOnlyA = Inr [''A'']"
    by (simp add: discoverWorkerIds_def readIndex_def indexOnlyA_def neverUnreadable_def)
  have c: "tickCompletes indexOnlyA" "listedIds indexOnlyA = [''A'']"
    by (simp_all add: tickCompletes_def listedIds_def i) (simp add: indexOnlyA_def neverUnreadable_def)
  have kA: "''A'' \<in> fst ` set snapshotAB" and kB: "''B'' \<in> fst ` set snapshotAB"
    by (simp_all add: snapshotAB_def)
  from single_absence_removes_worker[OF kB, of 5000 indexOnlyA]
       single_absence_removes_worker[OF kA, of 5000 indexOnlyA] c kA kB
  show ?thesis by simp
qed

subsection \<open>The counters of the worker list\<close>

text \<open>
  Claim C10.  For every filter argument, \<open>getWorkerList\<close> returns the workers of the
  snapshot that pass the region and status filters, \<open>total\<close> is the length of that list,
  and \<open>online\<close>, \<open>busy\<close> and \<open>idle\<close> count the workers of that list that are not
  offline, busy, and idle; with the status filter \<open>busy\<close>, \<open>idle\<close> is 0.
\<close>

theorem worker_list_counts_filtered:
  "r_workers (getWorkerList filters snapshot) = filter (passesFilters filters) (map snd snapshot)
   \<and> total (getWorkerList filters snapshot) = length (r_workers (getWorkerList filters snapshot))
   \<and> online (getWorkerList filters snapshot)
        = length (filter (\<lambda>w. status w \<noteq> Offline) (r_workers (getWorkerList filters snapshot)))
   \<and> busy (getWorkerList filters snapshot)
        = length (filter (\<lambda>w. status w = Busy) (r_workers (getWorkerList filters snapshot)))
   \<and> idle (getWorkerList filters snapshot)
        = length (filter (\<lambda>w. status w = Idle) (r_workers (getWorkerList filters snapshot)))
   \<and> (optField filters f_status = Some ''busy'' \<longrightarrow> idle (getWorkerList filters snapshot) = 0)"
proof -
  have w: "r_workers (getWorkerList filters snapshot) = filter (passesFilters filters) (map snd snapshot)"
    by (auto simp: getWorkerList_def passesFilters_def Let_def intro: filter_cong)
  have c: "total (getWorkerList filters snapshot) = length (r_workers (getWorkerList filters snapshot))"
    "online (getWorkerList filters snapshot)
        = length (filter (\<lambda>w. status w \<noteq> Offline) (r_workers (getWorkerList filters snapshot)))"
    "busy (getWorkerList filters snapshot)
        = length (filter (\<lambda>w. status w = Busy) (r_workers (getWorkerList filters snapshot)))"
    "idle (getWorkerList filters snapshot)
        = length (filter (\<lambda>w. status w = Idle) (r_workers (getWorkerList filters snapshot)))"
    by (simp_all add: getWorkerList_def Let_def)
  have "idle (getWorkerList filters snapshot) = 0" if b: "optField filters f_status = Some ''busy''"
  proof -
    have "\<And>x. passesFilters filters x \<Longrightarrow> status x \<noteq> Idle"
    proof
      fix x assume "passesFilters filters x" "status x = Idle"
      with b show False by (simp add: passesFilters_def truthy_def)
    qed
    then have "filter (\<lambda>w. status w = Idle) (filter (passesFilters filters) (map snd snapshot)) = []"
      by (auto simp: filter_empty_conv)
    then have "filter (\<lambda>w. status w = Idle) (r_workers (getWorkerList filters snapshot)) = []"
      by (simp only: w)
    then show ?thesis by (simp only: c(4) list.size)
  qed
  with w c show ?thesis by blast
qed

theorem worker_list_counts_filtered_witness:
  "optField busyOnly f_status = Some ''busy''
   \<and> getWorkerList busyOnly snapshotAB =
       \<lparr>r_workers = [workerB], total = 1, online = 1, busy = 1, idle = 0\<rparr>
   \<and> filter (passesFilters busyOnly) (map snd snapshotAB) = [workerB]"
proof -
  have f: "optField busyOnly f_status = Some ''busy''"
    by (simp add: optField_def busyOnly_def)
  have g: "getWorkerList busyOnly snapshotAB =
       \<lparr>r_workers = [workerB], total = 1, online = 1, busy = 1, idle = 0\<rparr>"
    by (simp add: getWorkerList_def busyOnly_def optField_def truthy_def snapshotAB_def
        workerA_def workerB_def Let_def)
  from worker_list_counts_filtered[of busyOnly snapshotAB] f g
  show ?thesis by simp
qed


section \<open>Properties of the job tracker\<close>

text \<open>
  Claim C5, as it stands, fails for the third terminal state: with a cancelled record in
  the cache, \<open>getJobStatus\<close> reads the store.
\<close>

theorem cancelled_job_is_refetched_counterexample:
  "jobs exampleTracker ''job-1'' = Some jobCancelled
   \<and> terminal (jstatus jobCancelled)
   \<and> reads (jobStore exampleTracker) = 0
   \<and> reads (jobStore (snd (getJobStatus ''job-1'' exampleTracker))) = 1"
  by (simp add: exampleTracker_def jobsCached_def jobsInStore_def jobCancelled_def terminal_def
      getJobStatus_def sm_get_def Let_def)

text \<open>
  Claim C5, amended.  For every tracked job whose cached record is completed or failed,
  \<open>getJobStatus\<close> returns the cached record and leaves the tracker as it was: no store
  read, no event, the same cache.  A cached record that is cancelled is not answered from
  the cache: as for a queued or a processing one, the lookup issues a store read.
\<close>

theorem completed_or_failed_served_from_cache:
  "(jobs t jobId = Some c \<and> (jstatus c = Completed \<or> jstatus c = Failed) \<longrightarrow>
      getJobStatus jobId t = (Some c, t))
   \<and> (jobs t jobId = Some c \<and>
        (jstatus c = Cancelled \<or> jstatus c = Queued \<or> jstatus c = Processing) \<longrightarrow>
      reads (jobStore (snd (getJobStatus jobId t))) = Suc (reads (jobStore t)))"
proof (intro conjI impI)
  assume "jobs t jobId = Some c \<and> (jstatus c = Completed \<or> jstatus c = Failed)"
  then show "getJobStatus jobId t = (Some c, t)"
    by (auto simp: getJobStatus_def)
next
  assume a: "jobs t jobId = Some c \<and>
        (jstatus c = Cancelled \<or> jstatus c = Queued \<or> jstatus c = Processing)"
  have r: "reads (snd (sm_get k st)) = Suc (reads st)" for k and st :: "JobStatus StateManager"
    by (simp add: sm_get_def)
  have p: "jobStore (publishStatusChange j u) = jobStore u" for j u
    by (simp add: publishStatusChange_def Let_def)
  obtain x st' where g: "sm_get (''queue:job:'' @ jobId) (jobStore t) = (x, st')"
    by (cases "sm_get (''queue:job:'' @ jobId) (jobStore t)")
  with r[of "''queue:job:'' @ jobId" "jobStore t"] have st': "reads st' = Suc (reads (jobStore t))"
    by simp
  show "reads (jobStore (snd (getJobStatus jobId t))) = Suc (reads (jobStore t))"
    using a g st'
    by (auto simp: getJobStatus_def Let_def p split: sum.splits option.splits)
qed

theorem completed_or_failed_served_from_cache_witness:
  "jobs exampleTracker ''job-2'' = Some jobCompleted \<and> jstatus jobCompleted = Completed
   \<and> getJobStatus ''job-2'' exampleTracker = (Some jobCompleted, exampleTracker)
   \<and> jobs exampleTracker ''job-1'' = Some jobCancelled \<and> jstatus jobCancelled = Cancelled
   \<and> reads (jobStore (snd (getJobStatus ''job-1'' exampleTracker)))
        = Suc (reads (jobStore exampleTracker))"
proof -
  have a: "jobs exampleTracker ''job-2'' = Some jobCompleted" "jstatus jobCompleted = Completed"
    "jobs exampleTracker ''job-1'' = Some jobCancelled" "jstatus jobCancelled = Cancelled"
    by (simp_all add: exampleTracker_def jobsCached_def jobCompleted_def jobCancelled_def)
  from completed_or_failed_served_from_cache[of exampleTracker "''job-2''" jobCompleted] a
  have "getJobStatus ''job-2'' exampleTracker = (Some jobCompleted, exampleTracker)" by blast
  moreover
  from completed_or_failed_served_from_cache[of exampleTracker "''job-1''" jobCancelled] a
  have "reads (jobStore (snd (getJobStatus ''job-1'' exampleTracker)))
        = Suc (reads (jobStore exampleTracker))" by blast
  ultimately show ?thesis using a by simp
qed

section \<open>Properties of the response cache\<close>

subsection \<open>The cache key\<close>











subsection \<open>What is stored\<close>

text \<open>
  Claim C7.  \<open>storeResponse\<close> tests the switch of the plugin and the method, and nothing
  else of the response: with caching enabled and the store reachable, a GET response is
  written under its key and \<open>gateway:cache:stored\<close> is published whatever its status
  code.  The subscriber of \<open>gateway:request:completed\<close>, which tests the status code,
  stores nothing and changes nothing.
\<close>

theorem storeResponse_ignores_status:
  assumes "cache_enabled cfg" and "reachable (cacheStore pl)"
  shows "entries (cacheStore (storeResponse h cfg now ''GET'' path query response pl))
            (computeCacheKey h ''GET'' path query)
         = Some (response\<lparr>cachedAt := now\<rparr>)
     \<and> storedEvents (storeResponse h cfg now ''GET'' path query response pl)
         = storedEvents pl @ [computeCacheKey h ''GET'' path query]
     \<and> completedSubscriber p pl = pl"
  using assms
  by (simp add: storeResponse_def sm_set_def Let_def completedSubscriber_def)

theorem storeResponse_ignores_status_witness:
  "cache_enabled cachingOn \<and> reachable (cacheStore emptyCache)
   \<and> statusCode serverError = 500
   \<and> entries (cacheStore (storeResponse id cachingOn 1000 ''GET'' ''/api/v1/models'' [] serverError emptyCache))
        ''gateway:cache:GET:/api/v1/models?''
      = Some \<lparr>statusCode = 500, headers = [], body = ''Internal Server Error'', cachedAt = 1000\<rparr>"
proof -
  have a: "cache_enabled cachingOn" "reachable (cacheStore emptyCache)"
    by (simp_all add: cachingOn_def emptyCache_def)
  have k: "computeCacheKey id ''GET'' ''/api/v1/models'' [] = ''gateway:cache:GET:/api/v1/models?''"
    by (simp add: computeCacheKey_def cacheKeyRaw_def sortedQuery_def)
  from storeResponse_ignores_status[OF a, of id 1000 "''/api/v1/models''" "[]" serverError]
  have "entries (cacheStore (storeResponse id cachingOn 1000 ''GET'' ''/api/v1/models'' [] serverError emptyCache))
            (computeCacheKey id ''GET'' ''/api/v1/models'' [])
         = Some (serverError\<lparr>cachedAt := 1000\<rparr>)" by blast
  with a show ?thesis unfolding k by (simp add: serverError_def)
qed

section \<open>Properties of the request pipeline\<close>

text \<open>
  Claim C8.  When the event comes back cancelled from \<open>publish\<close>, the middleware does not
  call \<open>next()\<close>, so the request does not reach the proxy, and it returns the response
  exactly as the handlers left it: it sets none of \<open>X-Request-ID\<close>, \<open>X-Gateway-Version\<close>,
  \<open>X-RateLimit-Limit\<close>, \<open>X-RateLimit-Remaining\<close> and \<open>X-RateLimit-Reset\<close>.
\<close>

theorem cancelled_event_stops_pipeline:
  assumes "isCancelled (fst (publish (incomingEvent gwReq) res))"
  shows "apiPipeline publish gwReq res =
           \<lparr>out_response = snd (publish (incomingEvent gwReq) res), forwarded = False\<rparr>
     \<and> \<not> forwarded (apiPipeline publish gwReq res)
     \<and> res_headers (out_response (apiPipeline publish gwReq res))
          = res_headers (snd (publish (incomingEvent gwReq) res))"
proof -
  obtain requestEvent res1 where p: "publish (incomingEvent gwReq) res = (requestEvent, res1)"
    by (cases "publish (incomingEvent gwReq) res")
  with assms show ?thesis by (simp add: apiPipeline_def)
qed

theorem cancelled_event_stops_pipeline_witness:
  "isCancelled (fst (rejectingPublish (incomingEvent exampleRequest) freshResponse))
   \<and> apiPipeline rejectingPublish exampleRequest freshResponse =
       \<lparr>out_response = \<lparr>res_headers = [], res_status = Some 429, res_sent = Some ''RATE_LIMIT_EXCEEDED''\<rparr>,
        forwarded = False\<rparr>"
proof -
  have c: "isCancelled (fst (rejectingPublish (incomingEvent exampleRequest) freshResponse))"
    by (simp add: rejectingPublish_def)
  from cancelled_event_stops_pipeline[of rejectingPublish exampleRequest freshResponse] c
  show ?thesis
    by (simp add: rejectingPublish_def freshResponse_def)
qed

lemma pipeline_forwards_unless_cancelled:
  "forwarded (apiPipeline publish gwReq res)
     \<longleftrightarrow> \<not> isCancelled (fst (publish (incomingEvent gwReq) res))"
  by (cases "publish (incomingEvent gwReq) res") (simp add: apiPipeline_def Let_def)


end
